theory Spec2Isabelle
  imports Complex_Main "HOL-Library.Sublist"
begin

section \<open>The lazy-img element (src/src/lazyImg.ts)\<close>

text \<open>
  A shallow embedding of the visibility-detection part of \<^verbatim>\<open>lazyImg.ts\<close>: the two rate
  limiters \<^verbatim>\<open>debounce\<close> and \<^verbatim>\<open>throttle\<close>, the scroll-parent search, the geometric
  check of \<^verbatim>\<open>handleScroll\<close>, the observer callback and the two lifecycle callbacks.

  The element is one record: its properties, its private fields, the variables captured by
  the rate-limiter closure, and the part of the host (browser) that the element acts on:
  the listener registry, the timer queue, the observer's registration. Every effect on the
  host that a claim speaks about is appended to \<open>trace\<close>, oldest first.
\<close>

subsection \<open>Data\<close>

text \<open>
  A DOM element, by a number. \<^verbatim>\<open>parentElement\<close> yields an \<^verbatim>\<open>Element\<close>, which need not be an
  \<^verbatim>\<open>HTMLElement\<close> (an SVG \<^verbatim>\<open>foreignObject\<close> is not), whatever the TypeScript annotation
  says; \<^verbatim>\<open>handleScroll\<close> tells the two apart with \<^verbatim>\<open>instanceof HTMLElement\<close>.
\<close>

datatype element = HTMLElement nat | OtherElement nat

datatype target = Window | Elem element

datatype event_type = Scroll | Resize

text \<open>A \<^verbatim>\<open>DOMRect\<close> as read by the code: only its four edges.\<close>

record rect =
  rtop :: real
  rbottom :: real
  rleft :: real
  rright :: real

text \<open>The three strings that \<^verbatim>\<open>getScrollParent\<close> reads from \<^verbatim>\<open>getComputedStyle(parent)\<close>.\<close>

record computed_style =
  overflow :: string
  overflowY :: string
  overflowX :: string

text \<open>
  What a callback reads from the host while it runs: \<^verbatim>\<open>Date.now()\<close>,
  \<^verbatim>\<open>this.getBoundingClientRect()\<close>, the bounding rectangle of any other element, and the
  window's inner size.
\<close>

record env =
  now :: int
  boundingClientRect :: rect
  elementRect :: "element \<Rightarrow> rect"
  innerHeight :: real
  innerWidth :: real

text \<open>
  The function returned by \<^verbatim>\<open>debounce(cb, delay)\<close> or \<^verbatim>\<open>throttle(cb, delay)\<close>. The only
  callback ever wrapped is \<^verbatim>\<open>() => this.handleScroll()\<close>, so the value records the policy
  and the captured delay. The closures handed to \<^verbatim>\<open>setTimeout\<close> are the two tasks.
\<close>

datatype limiter = Debounce int | Throttle int

datatype task = DebounceTask | ThrottleTask

datatype effect =
    LoadImage
  | Invoke int
  | AddEventListener target event_type
  | RemoveEventListener target event_type
  | NewIntersectionObserver real
  | Observe
  | ObserverDisconnect

record lazy_img =
  \<comment> \<open>element properties\<close>
  visibleByDefault :: bool
  useIntersectionObserver :: bool
  threshold :: real
  delayMethod :: string
  delayTime :: int
  \<comment> \<open>internal state; the observer is recorded by its \<^verbatim>\<open>rootMargin\<close> in px\<close>
  observer :: "real option"
  scrollAndResizeCallback :: "limiter option"
  imageVisible :: bool
  scrollParent :: target
  \<comment> \<open>variables captured by the rate-limiter closure\<close>
  timerId :: "nat option"
  lastCall :: int
  timeoutId :: "nat option"
  \<comment> \<open>host: the \<^verbatim>\<open>parentElement\<close> chain (nearest first, with computed styles), feature
      test, listener registry, timer queue (id, due time, task), observer registration,
      whether Lit has run \<^verbatim>\<open>firstUpdated\<close>\<close>
  ancestors :: "(element \<times> computed_style) list"
  hasIntersectionObserver :: bool
  listeners :: "(target \<times> event_type \<times> limiter) list"
  timers :: "(nat \<times> int \<times> task) list"
  nextTimer :: nat
  observing :: bool
  updated :: bool
  trace :: "effect list"

subsection \<open>Host operations\<close>

text \<open>
  \<^verbatim>\<open>window.setTimeout(task, d)\<close>: a fresh positive id; a negative delay counts as 0.
  \<^verbatim>\<open>clearTimeout(id)\<close>: removes that timer if it is pending, and does nothing for
  \<^verbatim>\<open>undefined\<close>.
\<close>

definition setTimeout :: "task \<Rightarrow> int \<Rightarrow> env \<Rightarrow> lazy_img \<Rightarrow> nat \<times> lazy_img" where
  "setTimeout k d e s =
     (nextTimer s,
      s\<lparr>timers := timers s @ [(nextTimer s, now e + max 0 d, k)],
        nextTimer := Suc (nextTimer s)\<rparr>)"

definition clearTimeout :: "nat option \<Rightarrow> lazy_img \<Rightarrow> lazy_img" where
  "clearTimeout i s = s\<lparr>timers := filter (\<lambda>(j, d, k). Some j \<noteq> i) (timers s)\<rparr>"

text \<open>
  \<^verbatim>\<open>addEventListener\<close> ignores a registration that is already present;
  \<^verbatim>\<open>removeEventListener\<close> does nothing when there is none.
\<close>

definition addEventListener :: "target \<Rightarrow> event_type \<Rightarrow> limiter \<Rightarrow> lazy_img \<Rightarrow> lazy_img" where
  "addEventListener t ty f s =
     s\<lparr>listeners := (if (t, ty, f) \<in> set (listeners s) then listeners s
                      else listeners s @ [(t, ty, f)]),
       trace := trace s @ [AddEventListener t ty]\<rparr>"

definition removeEventListener :: "target \<Rightarrow> event_type \<Rightarrow> limiter \<Rightarrow> lazy_img \<Rightarrow> lazy_img" where
  "removeEventListener t ty f s =
     s\<lparr>listeners := filter (\<lambda>l. l \<noteq> (t, ty, f)) (listeners s),
       trace := trace s @ [RemoveEventListener t ty]\<rparr>"

text \<open>\<^verbatim>\<open>this.observer?.disconnect()\<close>\<close>

definition observer_disconnect :: "lazy_img \<Rightarrow> lazy_img" where
  "observer_disconnect s =
     (case observer s of
        None \<Rightarrow> s
      | Some m \<Rightarrow> s\<lparr>observing := False, trace := trace s @ [ObserverDisconnect]\<rparr>)"

subsection \<open>The element's methods\<close>

definition loadImage :: "lazy_img \<Rightarrow> lazy_img" where
  "loadImage s = s\<lparr>imageVisible := True, trace := trace s @ [LoadImage]\<rparr>"

definition removeScrollAndResizeListeners :: "lazy_img \<Rightarrow> lazy_img" where
  "removeScrollAndResizeListeners s =
     (case scrollAndResizeCallback s of
        None \<Rightarrow> s
      | Some f \<Rightarrow>
          (removeEventListener Window Resize f
            (removeEventListener Window Scroll f
              (removeEventListener (scrollParent s) Scroll f s)))
          \<lparr>scrollAndResizeCallback := None\<rparr>)"

text \<open>\<^verbatim>\<open>/(auto|scroll)/.test(str)\<close>: the string contains one of the two words.\<close>

fun contains :: "string \<Rightarrow> string \<Rightarrow> bool" where
  "contains p [] = (p = [])"
| "contains p (c # cs) = (prefix p (c # cs) \<or> contains p cs)"

definition regex_test :: "string \<Rightarrow> bool" where
  "regex_test str = (contains ''auto'' str \<or> contains ''scroll'' str)"

text \<open>
  The loop of \<^verbatim>\<open>getScrollParent\<close> follows \<^verbatim>\<open>parentElement\<close> until it is null; the chain of a
  DOM tree is finite, and the function recurses on it. It returns the ancestor as it is,
  of whatever kind.
\<close>

fun getScrollParent :: "(element \<times> computed_style) list \<Rightarrow> target" where
  "getScrollParent [] = Window"
| "getScrollParent ((parent, style) # rest) =
     (if regex_test (overflow style @ overflowY style @ overflowX style)
      then Elem parent
      else getScrollParent rest)"

text \<open>
  The geometric part of \<^verbatim>\<open>handleScroll\<close>. Its first branch is taken when
  \<^verbatim>\<open>this.scrollParent instanceof HTMLElement\<close>; the window and every other kind of element
  take the second.
\<close>

definition isCurrentlyVisible :: "env \<Rightarrow> lazy_img \<Rightarrow> bool" where
  "isCurrentlyVisible e s =
     (let rect = boundingClientRect e in
      case scrollParent s of
        Elem (HTMLElement p) \<Rightarrow>
          (let parentRect = elementRect e (HTMLElement p);
               containerTop = rtop parentRect;
               containerBottom = rbottom parentRect;
               containerLeft = rleft parentRect;
               containerRight = rright parentRect;
               inVerticalView = (rbottom rect \<ge> containerTop \<and> rtop rect \<le> containerBottom);
               inHorizontalView = (rright rect \<ge> containerLeft \<and> rleft rect \<le> containerRight)
           in inVerticalView \<and> inHorizontalView)
      | _ \<Rightarrow>
          (let inVerticalView = (rbottom rect \<ge> 0 \<and> rtop rect \<le> innerHeight e);
               inHorizontalView = (rright rect \<ge> 0 \<and> rleft rect \<le> innerWidth e)
           in inVerticalView \<and> inHorizontalView))"

definition handleScroll :: "env \<Rightarrow> lazy_img \<Rightarrow> lazy_img" where
  "handleScroll e s =
     (if visibleByDefault s \<or> imageVisible s then s
      else if isCurrentlyVisible e s then removeScrollAndResizeListeners (loadImage s)
      else s)"

text \<open>The wrapped callback \<^verbatim>\<open>() => this.handleScroll()\<close>; each run of it is traced.\<close>

definition callback :: "env \<Rightarrow> lazy_img \<Rightarrow> lazy_img" where
  "callback e s = handleScroll e (s\<lparr>trace := trace s @ [Invoke (now e)]\<rparr>)"

text \<open>One call of the function returned by \<^verbatim>\<open>debounce(callback, delay)\<close>.\<close>

definition debounce :: "int \<Rightarrow> env \<Rightarrow> lazy_img \<Rightarrow> lazy_img" where
  "debounce delay e s =
     (let (i, s') = setTimeout DebounceTask delay e (clearTimeout (timerId s) s)
      in s'\<lparr>timerId := Some i\<rparr>)"

text \<open>One call of the function returned by \<^verbatim>\<open>throttle(callback, delay)\<close>.\<close>

definition throttle :: "int \<Rightarrow> env \<Rightarrow> lazy_img \<Rightarrow> lazy_img" where
  "throttle delay e s =
     (let remaining = delay - (now e - lastCall s) in
      if now e - lastCall s \<ge> delay then callback e (s\<lparr>lastCall := now e\<rparr>)
      else if timeoutId s = None then
        (let (i, s') = setTimeout ThrottleTask remaining e s in s'\<lparr>timeoutId := Some i\<rparr>)
      else s)"

fun limitedCallback :: "limiter \<Rightarrow> env \<Rightarrow> lazy_img \<Rightarrow> lazy_img" where
  "limitedCallback (Debounce delay) e s = debounce delay e s"
| "limitedCallback (Throttle delay) e s = throttle delay e s"

text \<open>The bodies of the two timer closures.\<close>

fun run_task :: "task \<Rightarrow> env \<Rightarrow> lazy_img \<Rightarrow> lazy_img" where
  "run_task DebounceTask e s = callback e s"
| "run_task ThrottleTask e s = (callback e (s\<lparr>lastCall := now e\<rparr>))\<lparr>timeoutId := None\<rparr>"

text \<open>
  \<^verbatim>\<open>this.scrollParent\<close> is a window or an element, never null, so of
  \<^verbatim>\<open>if (this.scrollParent) ... else ...\<close> only the first branch can run.
\<close>

definition initScrollAndResizeHandlers :: "lazy_img \<Rightarrow> lazy_img" where
  "initScrollAndResizeHandlers s =
     (let handle = (if delayMethod s = ''debounce'' then Debounce else Throttle);
          f = handle (delayTime s);
          s1 = s\<lparr>scrollAndResizeCallback := Some f\<rparr>;
          s2 = s1\<lparr>scrollParent := getScrollParent (ancestors s1)\<rparr>
      in addEventListener Window Resize f (addEventListener (scrollParent s2) Scroll f s2))"

definition initialiseObserver :: "lazy_img \<Rightarrow> lazy_img" where
  "initialiseObserver s =
     s\<lparr>observer := Some (threshold s),
       trace := trace s @ [NewIntersectionObserver (threshold s)]\<rparr>"

text \<open>
  \<^verbatim>\<open>onIntersection(entries)\<close> reads \<^verbatim>\<open>entries[0].isIntersecting\<close>; the host calls it with at
  least one entry, given here as the first entry and the others.
\<close>

definition onIntersection :: "bool \<Rightarrow> bool list \<Rightarrow> lazy_img \<Rightarrow> lazy_img" where
  "onIntersection isIntersecting others s =
     (if isIntersecting then observer_disconnect (loadImage s) else s)"

definition connectedCallback :: "env \<Rightarrow> lazy_img \<Rightarrow> lazy_img" where
  "connectedCallback e s =
     handleScroll e
       (if visibleByDefault s then s\<lparr>imageVisible := True\<rparr>
        else if useIntersectionObserver s \<and> hasIntersectionObserver s then initialiseObserver s
        else initScrollAndResizeHandlers s)"

definition disconnectedCallback :: "lazy_img \<Rightarrow> lazy_img" where
  "disconnectedCallback s = removeScrollAndResizeListeners (observer_disconnect s)"

definition firstUpdated :: "lazy_img \<Rightarrow> lazy_img" where
  "firstUpdated s =
     (case observer s of
        None \<Rightarrow> s
      | Some m \<Rightarrow> s\<lparr>observing := True, trace := trace s @ [Observe]\<rparr>)"

subsection \<open>The host's events\<close>

text \<open>
  After activation the host drives the element: it dispatches a scroll or resize event at a
  target (the listener registered there, if any, is called), it runs a pending timer once
  its due time is reached, the observer delivers entries while it observes the element,
  Lit calls \<^verbatim>\<open>firstUpdated\<close> once, and removal from the document calls
  \<^verbatim>\<open>disconnectedCallback\<close>.
\<close>

datatype event =
    Dispatch target event_type env
  | TimerFire nat env
  | Intersection bool "bool list"
  | FirstUpdated
  | Disconnected

fun step :: "event \<Rightarrow> lazy_img \<Rightarrow> lazy_img" where
  "step (Dispatch t ty e) s =
     (case find (\<lambda>(t', ty', f). t' = t \<and> ty' = ty) (listeners s) of
        None \<Rightarrow> s
      | Some (t', ty', f) \<Rightarrow> limitedCallback f e s)"
| "step (TimerFire i e) s =
     (case find (\<lambda>(j, d, k). j = i) (timers s) of
        None \<Rightarrow> s
      | Some (j, d, k) \<Rightarrow>
          if now e < d then s
          else run_task k e (s\<lparr>timers := filter (\<lambda>(j', d', k'). j' \<noteq> i) (timers s)\<rparr>))"
| "step (Intersection b bs) s = (if observing s then onIntersection b bs s else s)"
| "step FirstUpdated s = (if updated s then s else firstUpdated (s\<lparr>updated := True\<rparr>))"
| "step Disconnected s = disconnectedCallback s"

fun run :: "event list \<Rightarrow> lazy_img \<Rightarrow> lazy_img" where
  "run [] s = s"
| "run (ev # evs) s = run evs (step ev s)"

text \<open>
  A freshly constructed element with the given properties, in a document where its
  ancestors are \<open>anc\<close>; \<open>io\<close> says whether \<^verbatim>\<open>'IntersectionObserver' in window\<close>. The private
  fields have their initialisers; the first timer id is 1.
\<close>

definition new_element ::
  "bool \<Rightarrow> bool \<Rightarrow> real \<Rightarrow> string \<Rightarrow> int \<Rightarrow> (element \<times> computed_style) list \<Rightarrow> bool \<Rightarrow> lazy_img"
  where
  "new_element vbd uio thr dm dt anc io =
     \<lparr>visibleByDefault = vbd, useIntersectionObserver = uio, threshold = thr,
      delayMethod = dm, delayTime = dt,
      observer = None, scrollAndResizeCallback = None, imageVisible = False,
      scrollParent = Window,
      timerId = None, lastCall = 0, timeoutId = None,
      ancestors = anc, hasIntersectionObserver = io,
      listeners = [], timers = [], nextTimer = 1, observing = False, updated = False,
      trace = []\<rparr>"

definition loads :: "lazy_img \<Rightarrow> nat" where
  "loads s = count_list (trace s) LoadImage"

subsection \<open>Overlap of rectangles, as the specification words it\<close>

text \<open>
  Two closed intervals overlap when they have a point in common, that is when the larger
  of the lower ends is at most the smaller of the upper ends. Rectangles overlap when they
  do so on both axes. The container rectangle of the window is (0,0) to
  (innerWidth, innerHeight).
\<close>

definition spec_axis_overlap :: "real \<Rightarrow> real \<Rightarrow> real \<Rightarrow> real \<Rightarrow> bool" where
  "spec_axis_overlap lo1 hi1 lo2 hi2 = (max lo1 lo2 \<le> min hi1 hi2)"

definition spec_overlap :: "rect \<Rightarrow> rect \<Rightarrow> bool" where
  "spec_overlap r c =
     (spec_axis_overlap (rtop r) (rbottom r) (rtop c) (rbottom c) \<and>
      spec_axis_overlap (rleft r) (rright r) (rleft c) (rright c))"

definition container_rect :: "env \<Rightarrow> target \<Rightarrow> rect" where
  "container_rect e t =
     (case t of
        Window \<Rightarrow> \<lparr>rtop = 0, rbottom = innerHeight e, rleft = 0, rright = innerWidth e\<rparr>
      | Elem el \<Rightarrow> elementRect e el)"

text \<open>
  The container that \<^verbatim>\<open>handleScroll\<close> measures the element against, given the scroll
  parent: the scroll parent itself when it is an \<^verbatim>\<open>HTMLElement\<close>, and the window otherwise
  (line 209 of the source).
\<close>

definition checked_container :: "target \<Rightarrow> target" where
  "checked_container t = (case t of Elem (HTMLElement p) \<Rightarrow> t | _ \<Rightarrow> Window)"

definition well_formed :: "rect \<Rightarrow> bool" where
  "well_formed r = (rtop r \<le> rbottom r \<and> rleft r \<le> rright r)"

subsection \<open>Scroll containers, as the specification words them\<close>

text \<open>
  An ancestor qualifies when its computed overflow, overflowY or overflowX matches
  "auto" or "scroll". The computed value of \<^verbatim>\<open>overflow-x\<close> and of \<^verbatim>\<open>overflow-y\<close> is one
  keyword; that of the shorthand is one keyword, or two separated by a space.
\<close>

definition spec_scrollable :: "computed_style \<Rightarrow> bool" where
  "spec_scrollable st =
     (regex_test (overflow st) \<or> regex_test (overflowY st) \<or> regex_test (overflowX st))"

definition overflow_keywords :: "string list" where
  "overflow_keywords = [''visible'', ''hidden'', ''clip'', ''scroll'', ''auto'']"

definition valid_style :: "computed_style \<Rightarrow> bool" where
  "valid_style st =
     (overflowX st \<in> set overflow_keywords \<and> overflowY st \<in> set overflow_keywords \<and>
      (overflow st \<in> set overflow_keywords \<or>
       (\<exists>a \<in> set overflow_keywords. \<exists>b \<in> set overflow_keywords. overflow st = a @ '' '' @ b)))"

definition valid_chain :: "(element \<times> computed_style) list \<Rightarrow> bool" where
  "valid_chain anc = list_all (\<lambda>(n, st). valid_style st) anc"

definition spec_resolve :: "(element \<times> computed_style) list \<Rightarrow> target" where
  "spec_resolve anc =
     (case find (\<lambda>(n, st). spec_scrollable st) anc of
        None \<Rightarrow> Window
      | Some (n, st) \<Rightarrow> Elem n)"

subsection \<open>Observations on traces and states\<close>

fun invocations :: "effect list \<Rightarrow> int list" where
  "invocations [] = []"
| "invocations (Invoke t # xs) = t # invocations xs"
| "invocations (x # xs) = invocations xs"

fun is_disposal :: "effect \<Rightarrow> bool" where
  "is_disposal ObserverDisconnect = True"
| "is_disposal (RemoveEventListener t ty) = True"
| "is_disposal x = False"

text \<open>
  "Dispose, then reveal": some disposal effect comes before the first \<open>LoadImage\<close> of the
  trace.
\<close>

definition spec_disposed_before_reveal :: "effect list \<Rightarrow> bool" where
  "spec_disposed_before_reveal tr = list_ex is_disposal (takeWhile (\<lambda>x. x \<noteq> LoadImage) tr)"


definition throttle_timers :: "lazy_img \<Rightarrow> (nat \<times> int \<times> task) list" where
  "throttle_timers s = filter (\<lambda>(i, d, k). k = ThrottleTask) (timers s)"

text \<open>Invariants of the runs of an activated element.\<close>

definition resources_owned :: "lazy_img \<Rightarrow> bool" where
  "resources_owned s =
     ((observing s \<longrightarrow> observer s \<noteq> None) \<and>
      (case scrollAndResizeCallback s of
         None \<Rightarrow> listeners s = []
       | Some f \<Rightarrow> set (listeners s) \<subseteq> {(scrollParent s, Scroll, f), (Window, Resize, f)}))"

definition notified_once :: "lazy_img \<Rightarrow> bool" where
  "notified_once s =
     (observer s = None \<and> \<not> observing s \<and>
      loads s = (if imageVisible s \<and> \<not> visibleByDefault s then 1 else 0))"

text \<open>
  Under the observer strategy, when the check at activation has not revealed the element:
  nothing is registered but the observer, and a reveal ends the observation for good,
  since \<^verbatim>\<open>firstUpdated\<close> runs once.
\<close>

definition observer_once :: "lazy_img \<Rightarrow> bool" where
  "observer_once s =
     (\<not> visibleByDefault s \<and> observer s \<noteq> None \<and> listeners s = [] \<and> timers s = [] \<and>
      (observing s \<longrightarrow> updated s) \<and> (imageVisible s \<longrightarrow> \<not> observing s \<and> updated s) \<and>
      loads s = (if imageVisible s then 1 else 0))"


definition one_trailing :: "lazy_img \<Rightarrow> bool" where
  "one_trailing s =
     (length (throttle_timers s) \<le> 1 \<and> (timeoutId s = None \<longrightarrow> throttle_timers s = []))"

subsection \<open>Example inputs\<close>

definition mk_rect :: "real \<Rightarrow> real \<Rightarrow> real \<Rightarrow> real \<Rightarrow> rect" where
  "mk_rect t b l r = \<lparr>rtop = t, rbottom = b, rleft = l, rright = r\<rparr>"

text \<open>
  A window of height 300 and width 100 at time \<open>t\<close>, the element at \<open>r\<close>, every other
  element at \<open>c\<close>.
\<close>

definition example_env :: "int \<Rightarrow> rect \<Rightarrow> rect \<Rightarrow> env" where
  "example_env t r c =
     \<lparr>now = t, boundingClientRect = r, elementRect = (\<lambda>el. c),
      innerHeight = 300, innerWidth = 100\<rparr>"

definition in_view :: rect where
  "in_view = mk_rect 100 200 0 50"

definition below_view :: rect where
  "below_view = mk_rect 400 500 0 50"

definition style_of :: "string \<Rightarrow> computed_style" where
  "style_of v = \<lparr>overflow = v, overflowY = v, overflowX = v\<rparr>"

section \<open>Properties\<close>

lemma spec_axis_overlap_common_point:
  "spec_axis_overlap lo1 hi1 lo2 hi2 = (\<exists>y. lo1 \<le> y \<and> y \<le> hi1 \<and> lo2 \<le> y \<and> y \<le> hi2)"
  unfolding spec_axis_overlap_def
proof
  assume "max lo1 lo2 \<le> min hi1 hi2"
  then have "lo1 \<le> max lo1 lo2 \<and> max lo1 lo2 \<le> hi1 \<and> lo2 \<le> max lo1 lo2 \<and> max lo1 lo2 \<le> hi2"
    by simp
  then show "\<exists>y. lo1 \<le> y \<and> y \<le> hi1 \<and> lo2 \<le> y \<and> y \<le> hi2" by blast
next
  assume "\<exists>y. lo1 \<le> y \<and> y \<le> hi1 \<and> lo2 \<le> y \<and> y \<le> hi2"
  then show "max lo1 lo2 \<le> min hi1 hi2" by auto
qed

named_theorems model_defs

declare setTimeout_def [model_defs] clearTimeout_def [model_defs] addEventListener_def [model_defs]
  removeEventListener_def [model_defs] observer_disconnect_def [model_defs] loadImage_def [model_defs]
  removeScrollAndResizeListeners_def [model_defs] isCurrentlyVisible_def [model_defs]
  handleScroll_def [model_defs] callback_def [model_defs] debounce_def [model_defs]
  throttle_def [model_defs] initScrollAndResizeHandlers_def [model_defs]
  initialiseObserver_def [model_defs] onIntersection_def [model_defs]
  connectedCallback_def [model_defs] disconnectedCallback_def [model_defs]
  firstUpdated_def [model_defs] new_element_def [model_defs] example_env_def [model_defs]
  mk_rect_def [model_defs] in_view_def [model_defs] below_view_def [model_defs]
  loads_def [model_defs] checked_container_def [model_defs] regex_test_def [model_defs] style_of_def [model_defs] Let_def [model_defs]

subsection \<open>What the methods leave alone\<close>

lemma observing_remove [simp]: "observing (removeScrollAndResizeListeners s) = observing s"
  by (simp add: removeScrollAndResizeListeners_def removeEventListener_def split: option.splits)

lemma observer_remove [simp]: "observer (removeScrollAndResizeListeners s) = observer s"
  by (simp add: removeScrollAndResizeListeners_def removeEventListener_def split: option.splits)

lemma timers_remove [simp]: "timers (removeScrollAndResizeListeners s) = timers s"
  by (simp add: removeScrollAndResizeListeners_def removeEventListener_def split: option.splits)

lemma owned_remove:
  "resources_owned s \<Longrightarrow> listeners (removeScrollAndResizeListeners s) = [] \<and>
     scrollAndResizeCallback (removeScrollAndResizeListeners s) = None"
  by (auto simp: resources_owned_def removeScrollAndResizeListeners_def removeEventListener_def
      filter_empty_conv split: option.splits)

lemma owned_removed: "resources_owned s \<Longrightarrow> resources_owned (removeScrollAndResizeListeners s)"
  using owned_remove [of s] by (simp add: resources_owned_def)

lemma owned_handleScroll: "resources_owned s \<Longrightarrow> resources_owned (handleScroll e s)"
proof -
  assume inv: "resources_owned s"
  then have "resources_owned (loadImage s)" by (simp add: resources_owned_def loadImage_def split: option.splits)
  then have "resources_owned (removeScrollAndResizeListeners (loadImage s))" by (rule owned_removed)
  with inv show ?thesis by (simp add: handleScroll_def)
qed

lemma owned_callback: "resources_owned s \<Longrightarrow> resources_owned (callback e s)"
  unfolding callback_def by (rule owned_handleScroll) (simp add: resources_owned_def split: option.splits)

lemma owned_limitedCallback: "resources_owned s \<Longrightarrow> resources_owned (limitedCallback f e s)"
proof (cases f)
  case (Debounce d)
  assume "resources_owned s"
  then show ?thesis using Debounce
    by (simp add: debounce_def setTimeout_def clearTimeout_def resources_owned_def split: option.splits)
next
  case (Throttle d)
  assume inv: "resources_owned s"
  then have "resources_owned (s\<lparr>lastCall := now e\<rparr>)" by (simp add: resources_owned_def split: option.splits)
  then have "resources_owned (callback e (s\<lparr>lastCall := now e\<rparr>))" by (rule owned_callback)
  with inv show ?thesis using Throttle
    by (simp add: throttle_def setTimeout_def resources_owned_def Let_def split: option.splits)
qed

lemma owned_run_task: "resources_owned s \<Longrightarrow> resources_owned (run_task k e s)"
proof (cases k)
  case DebounceTask
  assume "resources_owned s"
  then show ?thesis using DebounceTask by (simp add: owned_callback)
next
  case ThrottleTask
  assume "resources_owned s"
  then have "resources_owned (s\<lparr>lastCall := now e\<rparr>)" by (simp add: resources_owned_def split: option.splits)
  then have "resources_owned (callback e (s\<lparr>lastCall := now e\<rparr>))" by (rule owned_callback)
  then show ?thesis using ThrottleTask by (simp add: resources_owned_def split: option.splits)
qed

lemma owned_disconnected: "resources_owned s \<Longrightarrow> resources_owned (disconnectedCallback s)"
proof -
  assume "resources_owned s"
  then have "resources_owned (observer_disconnect s)"
    by (auto simp: resources_owned_def observer_disconnect_def split: option.splits)
  then show ?thesis unfolding disconnectedCallback_def by (rule owned_removed)
qed

lemma owned_step: "resources_owned s \<Longrightarrow> resources_owned (step ev s)"
proof (cases ev)
  case (Dispatch t ty e)
  assume "resources_owned s"
  then show ?thesis using Dispatch
    by (auto simp: owned_limitedCallback split: option.splits)
next
  case (TimerFire i e)
  assume inv: "resources_owned s"
  have "resources_owned (s\<lparr>timers := ts\<rparr>)" for ts
    using inv by (simp add: resources_owned_def split: option.splits)
  then show ?thesis using TimerFire inv
    by (auto simp: owned_run_task split: option.splits)
next
  case (Intersection b bs)
  assume "resources_owned s"
  then show ?thesis using Intersection
    by (auto simp: resources_owned_def onIntersection_def observer_disconnect_def loadImage_def
        split: option.splits)
next
  case FirstUpdated
  assume "resources_owned s"
  then show ?thesis using FirstUpdated
    by (auto simp: resources_owned_def firstUpdated_def split: option.splits)
next
  case Disconnected
  assume "resources_owned s"
  then show ?thesis using Disconnected by (simp add: owned_disconnected)
qed

lemma owned_run: "resources_owned s \<Longrightarrow> resources_owned (run evs s)"
  by (induction evs arbitrary: s) (simp_all add: owned_step)

lemma owned_connected:
  "resources_owned (connectedCallback e (new_element vbd uio thr dm dt anc io))"
proof -
  let ?s0 = "new_element vbd uio thr dm dt anc io"
  have "resources_owned (if visibleByDefault ?s0 then ?s0\<lparr>imageVisible := True\<rparr>
        else if useIntersectionObserver ?s0 \<and> hasIntersectionObserver ?s0 then initialiseObserver ?s0
        else initScrollAndResizeHandlers ?s0)"
    by (auto simp: resources_owned_def new_element_def initScrollAndResizeHandlers_def
        initialiseObserver_def addEventListener_def Let_def)
  then show ?thesis unfolding connectedCallback_def by (rule owned_handleScroll)
qed

lemma owned_reachable:
  "resources_owned (run evs (connectedCallback e (new_element vbd uio thr dm dt anc io)))"
  by (rule owned_run [OF owned_connected])

lemma timers_disconnected: "timers (disconnectedCallback s) = timers s"
  by (simp add: disconnectedCallback_def observer_disconnect_def split: option.splits)

lemma disconnected_released:
  assumes "resources_owned s"
  shows "listeners (disconnectedCallback s) = [] \<and>
         scrollAndResizeCallback (disconnectedCallback s) = None \<and>
         \<not> observing (disconnectedCallback s)"
proof -
  have "resources_owned (observer_disconnect s)"
    using assms by (auto simp: resources_owned_def observer_disconnect_def split: option.splits)
  then have "listeners (disconnectedCallback s) = [] \<and>
         scrollAndResizeCallback (disconnectedCallback s) = None"
    unfolding disconnectedCallback_def by (rule owned_remove)
  moreover have "\<not> observing (disconnectedCallback s)"
    using assms
    by (auto simp: disconnectedCallback_def resources_owned_def observer_disconnect_def
        split: option.splits)
  ultimately show ?thesis by simp
qed



lemma disconnected_again:
  "scrollAndResizeCallback d = None \<Longrightarrow>
   disconnectedCallback (d\<lparr>trace := tr\<rparr>) =
     d\<lparr>observing := (case observer d of None \<Rightarrow> observing d | Some m \<Rightarrow> False),
       trace := tr @ (case observer d of None \<Rightarrow> [] | Some m \<Rightarrow> [ObserverDisconnect])\<rparr>"
  by (simp add: disconnectedCallback_def observer_disconnect_def
      removeScrollAndResizeListeners_def split: option.splits)

lemma observer_disconnected [simp]: "observer (disconnectedCallback s) = observer s"
  by (simp add: disconnectedCallback_def observer_disconnect_def split: option.splits)

lemma disconnected_funpow:
  assumes "resources_owned s"
  shows "(disconnectedCallback ^^ k) (disconnectedCallback s) =
     (disconnectedCallback s)\<lparr>trace := trace (disconnectedCallback s) @
        (case observer s of None \<Rightarrow> [] | Some m \<Rightarrow> replicate k ObserverDisconnect)\<rparr>"
proof (induction k)
  case 0
  show ?case by (simp split: option.splits)
next
  case (Suc k)
  let ?d = "disconnectedCallback s"
  have rel: "scrollAndResizeCallback ?d = None" "\<not> observing ?d"
    using disconnected_released [OF assms] by simp_all
  show ?case
    using Suc rel
    by (simp add: disconnected_again replicate_append_same split: option.splits)
qed

subsection \<open>The notification count without an observer\<close>

lemma notified_once_handleScroll: "notified_once s \<Longrightarrow> notified_once (handleScroll e s)"
  by (auto simp: notified_once_def handleScroll_def loadImage_def loads_def
      removeScrollAndResizeListeners_def removeEventListener_def split: option.splits)

lemma notified_once_callback: "notified_once s \<Longrightarrow> notified_once (callback e s)"
  unfolding callback_def
  by (rule notified_once_handleScroll) (simp add: notified_once_def loads_def)

lemma notified_once_limitedCallback: "notified_once s \<Longrightarrow> notified_once (limitedCallback f e s)"
proof (cases f)
  case (Debounce d)
  assume "notified_once s"
  then show ?thesis using Debounce
    by (simp add: debounce_def setTimeout_def clearTimeout_def notified_once_def loads_def)
next
  case (Throttle d)
  assume inv: "notified_once s"
  then have "notified_once (s\<lparr>lastCall := now e\<rparr>)"
    by (simp add: notified_once_def loads_def)
  then have "notified_once (callback e (s\<lparr>lastCall := now e\<rparr>))"
    by (rule notified_once_callback)
  with inv show ?thesis using Throttle
    by (simp add: throttle_def setTimeout_def notified_once_def loads_def Let_def)
qed

lemma notified_once_run_task: "notified_once s \<Longrightarrow> notified_once (run_task k e s)"
proof (cases k)
  case DebounceTask
  assume "notified_once s"
  then show ?thesis using DebounceTask by (simp add: notified_once_callback)
next
  case ThrottleTask
  assume "notified_once s"
  then have "notified_once (s\<lparr>lastCall := now e\<rparr>)"
    by (simp add: notified_once_def loads_def)
  then have "notified_once (callback e (s\<lparr>lastCall := now e\<rparr>))"
    by (rule notified_once_callback)
  then show ?thesis using ThrottleTask by (simp add: notified_once_def loads_def)
qed

lemma notified_once_step: "notified_once s \<Longrightarrow> notified_once (step ev s)"
proof (cases ev)
  case (Dispatch t ty e)
  assume "notified_once s"
  then show ?thesis using Dispatch
    by (auto simp: notified_once_limitedCallback split: option.splits)
next
  case (TimerFire i e)
  assume inv: "notified_once s"
  have "notified_once (s\<lparr>timers := ts\<rparr>)" for ts
    using inv by (simp add: notified_once_def loads_def)
  then show ?thesis using TimerFire inv
    by (auto simp: notified_once_run_task split: option.splits)
next
  case (Intersection b bs)
  assume "notified_once s"
  then show ?thesis using Intersection by (simp add: notified_once_def)
next
  case FirstUpdated
  assume "notified_once s"
  then show ?thesis using FirstUpdated
    by (simp add: notified_once_def firstUpdated_def loads_def)
next
  case Disconnected
  assume "notified_once s"
  then show ?thesis using Disconnected
    by (auto simp: notified_once_def disconnectedCallback_def observer_disconnect_def loads_def
        removeScrollAndResizeListeners_def removeEventListener_def split: option.splits)
qed

lemma notified_once_run: "notified_once s \<Longrightarrow> notified_once (run evs s)"
  by (induction evs arbitrary: s) (simp_all add: notified_once_step)

lemma notified_once_connected:
  assumes "vbd \<or> \<not> (uio \<and> io)"
  shows "notified_once (connectedCallback e (new_element vbd uio thr dm dt anc io))"
proof -
  let ?s0 = "new_element vbd uio thr dm dt anc io"
  have "notified_once (if visibleByDefault ?s0 then ?s0\<lparr>imageVisible := True\<rparr>
        else if useIntersectionObserver ?s0 \<and> hasIntersectionObserver ?s0 then initialiseObserver ?s0
        else initScrollAndResizeHandlers ?s0)"
    using assms
    by (auto simp: notified_once_def new_element_def loads_def initScrollAndResizeHandlers_def
        addEventListener_def Let_def)
  then show ?thesis unfolding connectedCallback_def by (rule notified_once_handleScroll)
qed

subsection \<open>What a check leaves alone\<close>

lemma invocations_append: "invocations (xs @ ys) = invocations xs @ invocations ys"
  by (induction xs rule: invocations.induct) simp_all

lemma handleScroll_frame:
  "timers (handleScroll e s) = timers s" "timeoutId (handleScroll e s) = timeoutId s"
  "lastCall (handleScroll e s) = lastCall s" "nextTimer (handleScroll e s) = nextTimer s"
  "timerId (handleScroll e s) = timerId s"
  "invocations (trace (handleScroll e s)) = invocations (trace s)"
  "observing (handleScroll e s) = observing s" "updated (handleScroll e s) = updated s"
  by (simp_all add: handleScroll_def loadImage_def removeScrollAndResizeListeners_def
      removeEventListener_def invocations_append split: option.splits)

lemma callback_frame:
  "timers (callback e s) = timers s" "timeoutId (callback e s) = timeoutId s"
  "lastCall (callback e s) = lastCall s" "nextTimer (callback e s) = nextTimer s"
  "timerId (callback e s) = timerId s"
  "invocations (trace (callback e s)) = invocations (trace s) @ [now e]"
  "observing (callback e s) = observing s" "updated (callback e s) = updated s"
  by (simp_all add: callback_def handleScroll_frame invocations_append)

subsection \<open>At most one trailing timer\<close>

lemma throttle_timers_callback [simp]: "throttle_timers (callback e s) = throttle_timers s"
  by (simp add: throttle_timers_def callback_frame)

lemma length_filter_filter: "length (filter P (filter Q xs)) \<le> length (filter P xs)"
  by (induction xs) auto

lemma filter_filter_Nil: "filter P xs = [] \<Longrightarrow> filter P (filter Q xs) = []"
  by (induction xs) (auto split: if_splits)

lemma one_trailing_callback: "one_trailing s \<Longrightarrow> one_trailing (callback e s)"
  by (simp add: one_trailing_def callback_frame)

lemma one_trailing_limitedCallback: "one_trailing s \<Longrightarrow> one_trailing (limitedCallback f e s)"
proof (cases f)
  case (Debounce d)
  assume inv: "one_trailing s"
  have "length (filter (\<lambda>(i, d, k). k = ThrottleTask) (filter (\<lambda>(j, d, k). Some j \<noteq> timerId s) (timers s)))
      \<le> length (filter (\<lambda>(i, d, k). k = ThrottleTask) (timers s))"
    by (rule length_filter_filter)
  then show ?thesis using Debounce inv
    by (auto simp: debounce_def setTimeout_def clearTimeout_def one_trailing_def throttle_timers_def
        filter_filter_Nil)
next
  case (Throttle d)
  assume inv: "one_trailing s"
  then have "one_trailing (s\<lparr>lastCall := now e\<rparr>)"
    by (simp add: one_trailing_def throttle_timers_def)
  then have "one_trailing (callback e (s\<lparr>lastCall := now e\<rparr>))" by (rule one_trailing_callback)
  with inv show ?thesis using Throttle
    by (simp add: throttle_def setTimeout_def one_trailing_def throttle_timers_def Let_def)
qed

lemma one_trailing_fire:
  assumes inv: "one_trailing s" and f: "find (\<lambda>(j, d, k). j = i) (timers s) = Some (j, d, k)"
  shows "one_trailing (run_task k e (s\<lparr>timers := filter (\<lambda>(j', d', k'). j' \<noteq> i) (timers s)\<rparr>))"
proof (cases k)
  case DebounceTask
  have "length (filter (\<lambda>(i, d, k). k = ThrottleTask) (filter (\<lambda>(j', d', k'). j' \<noteq> i) (timers s)))
      \<le> length (filter (\<lambda>(i, d, k). k = ThrottleTask) (timers s))"
    by (rule length_filter_filter)
  then have "one_trailing (s\<lparr>timers := filter (\<lambda>(j', d', k'). j' \<noteq> i) (timers s)\<rparr>)"
    using inv by (auto simp: one_trailing_def throttle_timers_def filter_filter_Nil)
  then show ?thesis using DebounceTask by (simp add: one_trailing_callback)
next
  case ThrottleTask
  from f have mem: "(i, d, ThrottleTask) \<in> set (timers s)"
    using ThrottleTask by (auto simp: find_Some_iff in_set_conv_nth)
  then have "(i, d, ThrottleTask) \<in> set (throttle_timers s)"
    by (simp add: throttle_timers_def)
  moreover have "length (throttle_timers s) \<le> 1" using inv by (simp add: one_trailing_def)
  ultimately have "throttle_timers s = [(i, d, ThrottleTask)]"
    by (cases "throttle_timers s") auto
  then have "filter (\<lambda>(j', d', k'). j' \<noteq> i) (throttle_timers s) = []" by simp
  then have "filter (\<lambda>(i, d, k). k = ThrottleTask) (filter (\<lambda>(j', d', k'). j' \<noteq> i) (timers s)) = []"
    by (simp add: throttle_timers_def conj_commute)
  then show ?thesis using ThrottleTask
    by (simp add: one_trailing_def throttle_timers_def callback_frame)
qed

lemma one_trailing_step: "one_trailing s \<Longrightarrow> one_trailing (step ev s)"
proof (cases ev)
  case (Dispatch t ty e)
  assume "one_trailing s"
  then show ?thesis using Dispatch
    by (auto simp: one_trailing_limitedCallback split: option.splits)
next
  case (TimerFire i e)
  assume inv: "one_trailing s"
  then show ?thesis using TimerFire one_trailing_fire [OF inv]
    by (auto split: option.splits)
next
  case (Intersection b bs)
  assume "one_trailing s"
  then show ?thesis using Intersection
    by (auto simp: one_trailing_def throttle_timers_def onIntersection_def loadImage_def
        observer_disconnect_def split: option.splits)
next
  case FirstUpdated
  assume "one_trailing s"
  then show ?thesis using FirstUpdated
    by (auto simp: one_trailing_def throttle_timers_def firstUpdated_def split: option.splits)
next
  case Disconnected
  assume "one_trailing s"
  then show ?thesis using Disconnected
    by (auto simp: one_trailing_def throttle_timers_def disconnectedCallback_def
        observer_disconnect_def removeScrollAndResizeListeners_def removeEventListener_def
        split: option.splits)
qed

lemma one_trailing_run: "one_trailing s \<Longrightarrow> one_trailing (run evs s)"
  by (induction evs arbitrary: s) (simp_all add: one_trailing_step)

lemma one_trailing_connected:
  "one_trailing (connectedCallback e (new_element vbd uio thr dm dt anc io))"
  by (simp add: one_trailing_def throttle_timers_def connectedCallback_def handleScroll_frame
      new_element_def initialiseObserver_def initScrollAndResizeHandlers_def addEventListener_def
      Let_def)

lemma one_trailing_reachable:
  "length (throttle_timers (run evs (connectedCallback e (new_element vbd uio thr dm dt anc io)))) \<le> 1"
  using one_trailing_run [OF one_trailing_connected, of evs e vbd uio thr dm dt anc io]
  by (simp add: one_trailing_def)

subsection \<open>The regular expression on computed styles\<close>

lemma contains_keyword_append:
  assumes "k \<in> set overflow_keywords"
  shows "contains ''auto'' (k @ t) = (contains ''auto'' k \<or> contains ''auto'' t)"
    and "contains ''scroll'' (k @ t) = (contains ''scroll'' k \<or> contains ''scroll'' t)"
  using assms by (auto simp: overflow_keywords_def)

lemma contains_space:
  "contains ''auto'' (CHR '' '' # t) = contains ''auto'' t"
  "contains ''scroll'' (CHR '' '' # t) = contains ''scroll'' t"
  by simp_all

lemma regex_test_keyword_append:
  "k \<in> set overflow_keywords \<Longrightarrow> regex_test (k @ t) = (regex_test k \<or> regex_test t)"
  by (auto simp: regex_test_def contains_keyword_append)

lemma regex_test_space: "regex_test (CHR '' '' # t) = regex_test t"
  by (simp add: regex_test_def)

lemma regex_test_concat:
  assumes "valid_style st"
  shows "regex_test (overflow st @ overflowY st @ overflowX st) = spec_scrollable st"
proof -
  have y: "overflowY st \<in> set overflow_keywords" and x: "overflowX st \<in> set overflow_keywords"
    using assms by (simp_all add: valid_style_def)
  have yx: "regex_test (overflowY st @ overflowX st) =
      (regex_test (overflowY st) \<or> regex_test (overflowX st))"
    using regex_test_keyword_append [OF y, of "overflowX st"] .
  from assms consider (one) "overflow st \<in> set overflow_keywords"
    | (two) a b where "a \<in> set overflow_keywords" "b \<in> set overflow_keywords"
        "overflow st = a @ '' '' @ b"
    by (auto simp: valid_style_def)
  then show ?thesis
  proof cases
    case one
    then show ?thesis
      by (simp add: regex_test_keyword_append yx spec_scrollable_def)
  next
    case two
    have "regex_test (overflow st) = (regex_test a \<or> regex_test b)"
      using regex_test_keyword_append [OF two(1), of "CHR '' '' # b"] two(3)
      by (simp add: regex_test_space)
    moreover have "regex_test (overflow st @ overflowY st @ overflowX st) =
        (regex_test a \<or> regex_test b \<or> regex_test (overflowY st @ overflowX st))"
      using regex_test_keyword_append [OF two(1), of "CHR '' '' # b @ overflowY st @ overflowX st"]
        regex_test_keyword_append [OF two(2), of "overflowY st @ overflowX st"] two(3)
      by (simp add: regex_test_space)
    ultimately show ?thesis by (auto simp: yx spec_scrollable_def)
  qed
qed

lemma getScrollParent_resolve: "valid_chain anc \<Longrightarrow> getScrollParent anc = spec_resolve anc"
proof (induction anc)
  case Nil
  show ?case by (simp add: spec_resolve_def)
next
  case (Cons a anc)
  obtain n st where a: "a = (n, st)" by (cases a)
  from Cons.prems have v: "valid_style st" and rest: "valid_chain anc"
    by (simp_all add: valid_chain_def a)
  from Cons.IH [OF rest] show ?case
    by (simp add: a regex_test_concat [OF v] spec_resolve_def)
qed

subsection \<open>The threshold is not read after activation\<close>

lemma threshold_handleScroll:
  "handleScroll e (s\<lparr>threshold := t\<rparr>) = (handleScroll e s)\<lparr>threshold := t\<rparr>"
  by (simp add: handleScroll_def isCurrentlyVisible_def loadImage_def
      removeScrollAndResizeListeners_def removeEventListener_def split: option.splits)

lemma threshold_callback:
  "callback e (s\<lparr>threshold := t\<rparr>) = (callback e s)\<lparr>threshold := t\<rparr>"
  by (simp add: callback_def handleScroll_def isCurrentlyVisible_def loadImage_def
      removeScrollAndResizeListeners_def removeEventListener_def split: option.splits)

lemma threshold_limitedCallback:
  "limitedCallback f e (s\<lparr>threshold := t\<rparr>) = (limitedCallback f e s)\<lparr>threshold := t\<rparr>"
  by (cases f)
     (simp_all add: debounce_def setTimeout_def clearTimeout_def throttle_def Let_def
        callback_def handleScroll_def isCurrentlyVisible_def loadImage_def
        removeScrollAndResizeListeners_def removeEventListener_def split: option.splits)

lemma threshold_run_task:
  "run_task k e (s\<lparr>threshold := t\<rparr>) = (run_task k e s)\<lparr>threshold := t\<rparr>"
  by (cases k)
     (simp_all add: callback_def handleScroll_def isCurrentlyVisible_def loadImage_def
        removeScrollAndResizeListeners_def removeEventListener_def split: option.splits)

lemma threshold_fire:
  "run_task k e (s\<lparr>threshold := t, timers := ts\<rparr>) = (run_task k e (s\<lparr>timers := ts\<rparr>))\<lparr>threshold := t\<rparr>"
  by (cases k)
     (simp_all add: callback_def handleScroll_def isCurrentlyVisible_def loadImage_def
        removeScrollAndResizeListeners_def removeEventListener_def split: option.splits)

lemma threshold_step: "step ev (s\<lparr>threshold := t\<rparr>) = (step ev s)\<lparr>threshold := t\<rparr>"
proof (cases ev)
  case (Dispatch tg ty e)
  then show ?thesis by (simp add: threshold_limitedCallback split: option.splits)
next
  case (TimerFire i e)
  then show ?thesis by (simp add: threshold_fire split: option.splits)
next
  case (Intersection b bs)
  then show ?thesis
    by (simp add: onIntersection_def loadImage_def observer_disconnect_def split: option.splits)
next
  case FirstUpdated
  then show ?thesis by (simp add: firstUpdated_def split: option.splits)
next
  case Disconnected
  then show ?thesis
    by (simp add: disconnectedCallback_def observer_disconnect_def
        removeScrollAndResizeListeners_def removeEventListener_def split: option.splits)
qed

lemma threshold_run: "run evs (s\<lparr>threshold := t\<rparr>) = (run evs s)\<lparr>threshold := t\<rparr>"
  by (induction evs arbitrary: s) (simp_all add: threshold_step)

lemma threshold_connected:
  "vbd \<or> \<not> (uio \<and> io) \<Longrightarrow>
   connectedCallback e (new_element vbd uio t1 dm dt anc io) =
     (connectedCallback e (new_element vbd uio t2 dm dt anc io))\<lparr>threshold := t1\<rparr>"
proof -
  assume h: "vbd \<or> \<not> (uio \<and> io)"
  have n: "new_element vbd uio t1 dm dt anc io = (new_element vbd uio t2 dm dt anc io)\<lparr>threshold := t1\<rparr>"
    by (simp add: new_element_def)
  let ?s = "new_element vbd uio t2 dm dt anc io"
  have "(if visibleByDefault (?s\<lparr>threshold := t1\<rparr>) then ?s\<lparr>threshold := t1, imageVisible := True\<rparr>
        else if useIntersectionObserver (?s\<lparr>threshold := t1\<rparr>) \<and> hasIntersectionObserver (?s\<lparr>threshold := t1\<rparr>)
          then initialiseObserver (?s\<lparr>threshold := t1\<rparr>)
        else initScrollAndResizeHandlers (?s\<lparr>threshold := t1\<rparr>)) =
     (if visibleByDefault ?s then ?s\<lparr>imageVisible := True\<rparr>
        else if useIntersectionObserver ?s \<and> hasIntersectionObserver ?s then initialiseObserver ?s
        else initScrollAndResizeHandlers ?s)\<lparr>threshold := t1\<rparr>"
    using h
    by (auto simp: new_element_def initScrollAndResizeHandlers_def addEventListener_def Let_def)
  then show ?thesis
    unfolding n connectedCallback_def by (simp add: threshold_handleScroll)
qed

subsection \<open>After disposal\<close>













lemma updated_disconnected [simp]: "updated (disconnectedCallback s) = updated s"
  by (simp add: disconnectedCallback_def observer_disconnect_def
      removeScrollAndResizeListeners_def removeEventListener_def split: option.splits)

subsection \<open>The notification count with an observer\<close>

lemma observer_once_step: "observer_once s \<Longrightarrow> observer_once (step ev s)"
proof (cases ev)
  case (Dispatch t ty e)
  assume "observer_once s"
  then show ?thesis using Dispatch by (simp add: observer_once_def)
next
  case (TimerFire i e)
  assume "observer_once s"
  then show ?thesis using TimerFire by (simp add: observer_once_def)
next
  case (Intersection b bs)
  assume "observer_once s"
  then show ?thesis using Intersection
    by (auto simp: observer_once_def onIntersection_def loadImage_def observer_disconnect_def
        loads_def)
next
  case FirstUpdated
  assume "observer_once s"
  then show ?thesis using FirstUpdated
    by (auto simp: observer_once_def firstUpdated_def loads_def)
next
  case Disconnected
  assume "observer_once s"
  then show ?thesis using Disconnected
    by (auto simp: observer_once_def disconnectedCallback_def observer_disconnect_def loads_def
        removeScrollAndResizeListeners_def removeEventListener_def split: option.splits)
qed

lemma observer_once_run: "observer_once s \<Longrightarrow> observer_once (run evs s)"
  by (induction evs arbitrary: s) (simp_all add: observer_once_step)

lemma observer_once_connected:
  assumes "\<not> vbd" "uio" "io"
    and "\<not> isCurrentlyVisible e (new_element vbd uio thr dm dt anc io)"
  shows "observer_once (connectedCallback e (new_element vbd uio thr dm dt anc io))"
  using assms
  by (simp add: observer_once_def connectedCallback_def handleScroll_def initialiseObserver_def
      isCurrentlyVisible_def new_element_def loads_def)

subsection \<open>C2: the polling check is overlap on both axes\<close>



subsection \<open>C1: how often the element is revealed\<close>

text \<open>
  C1, as the code has it. Leave aside the one case in which the check made by
  \<open>connectedCallback\<close> reveals the element while an observer has been created (the observer
  strategy is in use and the element is inside the window at activation). In every other
  case, under either strategy, after every sequence of scroll, resize, timer, observer and
  disposal events \<open>loadImage\<close> has been invoked at most once: exactly once if the element
  has been revealed by a check or by the observer, and not at all otherwise (in particular
  never for an element that is visible by default, whose \<open>imageVisible\<close> is set directly).
\<close>

theorem loadImage_at_most_once:
  "vbd \<or> \<not> (uio \<and> io) \<or> \<not> isCurrentlyVisible e (new_element vbd uio thr dm dt anc io) \<Longrightarrow>
   (let s = run evs (connectedCallback e (new_element vbd uio thr dm dt anc io))
    in loads s \<le> 1 \<and> (loads s = 1 \<longleftrightarrow> imageVisible s \<and> \<not> visibleByDefault s))"
proof (cases "vbd \<or> \<not> (uio \<and> io)")
  case True
  from notified_once_run [OF notified_once_connected [OF True], of evs e thr dm dt anc]
  show ?thesis by (simp add: notified_once_def Let_def)
next
  case False
  assume "vbd \<or> \<not> (uio \<and> io) \<or> \<not> isCurrentlyVisible e (new_element vbd uio thr dm dt anc io)"
  with False have "\<not> vbd" "uio" "io"
    and "\<not> isCurrentlyVisible e (new_element vbd uio thr dm dt anc io)"
    by simp_all
  from observer_once_run [OF observer_once_connected [OF this], of evs]
  show ?thesis by (auto simp: observer_once_def Let_def)
qed

theorem loadImage_at_most_once_witness:
  "\<not> isCurrentlyVisible (example_env 1000 below_view in_view)
       (new_element False True 0 ''debounce'' 0 [] True)
   \<and> loads (run [FirstUpdated, Intersection False [], Intersection True [], Intersection True [],
                 Disconnected, FirstUpdated, Intersection True []]
            (connectedCallback (example_env 1000 below_view in_view)
               (new_element False True 0 ''debounce'' 0 [] True))) = 1"
  using loadImage_at_most_once
    [of False True True "example_env 1000 below_view in_view" 0 "''debounce''" 0 "[]"
      "[FirstUpdated, Intersection False [], Intersection True [], Intersection True [],
        Disconnected, FirstUpdated, Intersection True []]"]
  by (simp add: model_defs)

text \<open>
  The specification's wording does not hold, in either direction. An element that is below
  the window at activation and receives no event is never revealed: no invocation. With
  the observer strategy, an element inside the window at activation is revealed by the
  check of \<open>connectedCallback\<close>, which leaves the observer alone; the observer's first
  callback reveals it again: two invocations.
\<close>

theorem loadImage_exactly_once_counterexample:
  "loads (run [] (connectedCallback (example_env 1000 below_view in_view)
       (new_element False False 0 ''debounce'' 0 [] True))) = 0 \<and>
   loads (run [FirstUpdated, Intersection True []]
       (connectedCallback (example_env 1000 in_view in_view)
          (new_element False True 0 ''debounce'' 0 [] True))) = 2"
  by (simp add: model_defs)

subsection \<open>C3: what disposal releases\<close>




subsection \<open>C4: the order of reveal and disposal\<close>

text \<open>
  C4, as the code has it. On a transition from pending to revealed, \<open>loadImage\<close> is invoked
  first, once, and the resources of the path that made the transition are released after
  it: \<open>onIntersection\<close> disconnects the observer; \<open>handleScroll\<close> removes the scroll
  listener from the scroll parent and from the window and the resize listener from the
  window, and clears the callback reference.
\<close>

theorem reveal_then_dispose:
  "(\<not> imageVisible s1 \<and> observer s1 \<noteq> None \<longrightarrow>
      (let s' = onIntersection True bs s1
       in trace s' = trace s1 @ [LoadImage, ObserverDisconnect] \<and> imageVisible s' \<and> \<not> observing s'))
   \<and> (\<not> visibleByDefault s2 \<and> \<not> imageVisible s2 \<and> isCurrentlyVisible e s2 \<and>
        scrollAndResizeCallback s2 = Some f \<longrightarrow>
      (let s' = handleScroll e s2
       in trace s' = trace s2 @ [LoadImage, RemoveEventListener (scrollParent s2) Scroll,
                                RemoveEventListener Window Scroll,
                                RemoveEventListener Window Resize]
          \<and> imageVisible s' \<and> scrollAndResizeCallback s' = None
          \<and> (scrollParent s2, Scroll, f) \<notin> set (listeners s')
          \<and> (Window, Resize, f) \<notin> set (listeners s')))"
  by (auto simp: onIntersection_def loadImage_def observer_disconnect_def handleScroll_def
      removeScrollAndResizeListeners_def removeEventListener_def Let_def)

theorem reveal_then_dispose_witness:
  "(let s1 = run [FirstUpdated] (connectedCallback (example_env 1000 below_view in_view)
               (new_element False True 0 ''debounce'' 0 [] True));
        s2 = connectedCallback (example_env 1000 below_view in_view)
               (new_element False False 0 ''debounce'' 0 [] True);
        e = example_env 1010 in_view in_view
    in (\<not> imageVisible s1 \<and> observer s1 \<noteq> None)
       \<and> (\<not> visibleByDefault s2 \<and> \<not> imageVisible s2 \<and> isCurrentlyVisible e s2 \<and>
          scrollAndResizeCallback s2 = Some (Debounce 0))
       \<and> trace (onIntersection True [] s1) =
           [NewIntersectionObserver 0, Observe, LoadImage, ObserverDisconnect]
       \<and> trace (handleScroll e s2) =
           [AddEventListener Window Scroll, AddEventListener Window Resize, LoadImage,
            RemoveEventListener Window Scroll, RemoveEventListener Window Scroll,
            RemoveEventListener Window Resize])"
  using reveal_then_dispose
    [of "run [FirstUpdated] (connectedCallback (example_env 1000 below_view in_view)
               (new_element False True 0 ''debounce'' 0 [] True))"
        "[]"
        "connectedCallback (example_env 1000 below_view in_view)
               (new_element False False 0 ''debounce'' 0 [] True)"
        "example_env 1010 in_view in_view" "Debounce 0"]
  by (simp add: model_defs)

text \<open>
  The specification's wording does not hold on both paths: in the trace no disposal effect comes before
  \<open>LoadImage\<close>.
\<close>

theorem dispose_before_reveal_counterexample:
  "\<not> spec_disposed_before_reveal
       (trace (run [FirstUpdated, Intersection True []]
          (connectedCallback (example_env 1000 below_view in_view)
             (new_element False True 0 ''debounce'' 0 [] True))))
   \<and> \<not> spec_disposed_before_reveal
       (trace (run [Dispatch Window Scroll (example_env 1010 in_view in_view)]
          (connectedCallback (example_env 1000 below_view in_view)
             (new_element False False 0 ''throttle'' 0 [] True))))"
  by (simp add: model_defs spec_disposed_before_reveal_def)

subsection \<open>C5: an interval of 0\<close>

text \<open>
  C5, as the code has it. With interval 0 a call of the throttled function, at a time not
  before the last run, invokes the callback at once and sets no timer. With interval 0 a
  call of the debounced function invokes nothing: it cancels the timer of the previous call
  and sets a new timer, due at once, that will invoke the callback later.
\<close>

theorem zero_interval_limiters:
  "(lastCall s \<le> now e \<longrightarrow>
      limitedCallback (Throttle 0) e s = callback e (s\<lparr>lastCall := now e\<rparr>)
      \<and> timers (limitedCallback (Throttle 0) e s) = timers s
      \<and> invocations (trace (limitedCallback (Throttle 0) e s)) = invocations (trace s) @ [now e])
   \<and> trace (limitedCallback (Debounce 0) e s) = trace s
   \<and> timers (limitedCallback (Debounce 0) e s) =
       filter (\<lambda>(j, d, k). Some j \<noteq> timerId s) (timers s) @ [(nextTimer s, now e, DebounceTask)]
   \<and> timerId (limitedCallback (Debounce 0) e s) = Some (nextTimer s)"
  by (simp add: throttle_def callback_frame debounce_def setTimeout_def clearTimeout_def)

theorem zero_interval_limiters_witness:
  "(let s = connectedCallback (example_env 1000 below_view in_view)
               (new_element False False 0 ''throttle'' 0 [] True);
        e = example_env 1010 below_view in_view
    in lastCall s \<le> now e \<and> trace (limitedCallback (Throttle 0) e s) =
         [AddEventListener Window Scroll, AddEventListener Window Resize, Invoke 1010])"
  using zero_interval_limiters
    [of "connectedCallback (example_env 1000 below_view in_view)
               (new_element False False 0 ''throttle'' 0 [] True)"
        "example_env 1010 below_view in_view"]
  by (simp add: model_defs)

text \<open>
  The specification's wording does not hold for debounce: after a scroll event with the element in view
  and interval 0, the callback has not run, the element is not revealed, and a timer is
  pending.
\<close>

theorem debounce_zero_deferred_counterexample:
  "(let s = run [Dispatch Window Scroll (example_env 1010 in_view in_view)]
             (connectedCallback (example_env 1000 below_view in_view)
               (new_element False False 0 ''debounce'' 0 [] True))
    in invocations (trace s) = [] \<and> \<not> imageVisible s \<and> timers s = [(1, 1010, DebounceTask)])"
  by (simp add: model_defs)

subsection \<open>C6: disposing more than once\<close>

text \<open>
  C6, as the code has it. For an element activated and driven by any events (a natural
  reveal among them or not), \<open>n \<ge> 1\<close> disposals leave the state that one disposal
  leaves, but for the trace: each later disposal calls \<open>disconnect\<close> on the observer again,
  if there is one, and calls \<open>removeEventListener\<close> not at all. In that state no listener
  is registered and the observer does not observe; the timer queue is as it was before
  the first disposal. No operation of \<open>disconnectedCallback\<close> can throw: the model has no
  error branch.
\<close>

theorem disposal_idempotent:
  "1 \<le> n \<Longrightarrow>
   (let s = run evs (connectedCallback e (new_element vbd uio thr dm dt anc io));
        d = disconnectedCallback s
    in (disconnectedCallback ^^ n) s =
         d\<lparr>trace := trace d @
            (case observer s of None \<Rightarrow> [] | Some m \<Rightarrow> replicate (n - 1) ObserverDisconnect)\<rparr>
       \<and> listeners d = [] \<and> scrollAndResizeCallback d = None \<and> \<not> observing d
       \<and> timers d = timers s)"
proof -
  assume n: "1 \<le> n"
  define s where "s = run evs (connectedCallback e (new_element vbd uio thr dm dt anc io))"
  have own: "resources_owned s" unfolding s_def by (rule owned_reachable)
  obtain k where k: "n = Suc k" using n by (cases n) simp_all
  have "(disconnectedCallback ^^ n) s = (disconnectedCallback ^^ k) (disconnectedCallback s)"
    unfolding k by (simp add: funpow_swap1)
  then have "(disconnectedCallback ^^ n) s =
         (disconnectedCallback s)\<lparr>trace := trace (disconnectedCallback s) @
            (case observer s of None \<Rightarrow> [] | Some m \<Rightarrow> replicate (n - 1) ObserverDisconnect)\<rparr>
       \<and> listeners (disconnectedCallback s) = []
       \<and> scrollAndResizeCallback (disconnectedCallback s) = None
       \<and> \<not> observing (disconnectedCallback s)
       \<and> timers (disconnectedCallback s) = timers s"
    using disconnected_funpow [OF own, of k] disconnected_released [OF own] k
    by (simp add: timers_disconnected split: option.splits)
  then show ?thesis unfolding s_def Let_def .
qed

theorem disposal_idempotent_witness:
  "(1::nat) \<le> 2 \<and>
   trace ((disconnectedCallback ^^ 2)
     (run [FirstUpdated, Intersection True []]
        (connectedCallback (example_env 1000 below_view in_view)
           (new_element False True 0 ''debounce'' 0 [] True)))) =
   [NewIntersectionObserver 0, Observe, LoadImage, ObserverDisconnect, ObserverDisconnect,
    ObserverDisconnect]"
  using disposal_idempotent
    [of 2 "[FirstUpdated, Intersection True []]" "example_env 1000 below_view in_view"
        False True 0 "''debounce''" 0 "[]" True]
  by (simp add: model_defs)

text \<open>
  The specification's wording does not hold on "no pending timers": two disposals after a debounced scroll
  event leave its timer pending.
\<close>

theorem disposal_leaves_timer_counterexample:
  "timers ((disconnectedCallback ^^ 2)
      (run [Dispatch Window Scroll (example_env 1010 below_view in_view)]
        (connectedCallback (example_env 1000 below_view in_view)
           (new_element False False 0 ''debounce'' 300 [] True)))) = [(1, 1310, DebounceTask)]"
  by (simp add: model_defs numeral_2_eq_2)

subsection \<open>C7: the throttle policy\<close>

text \<open>
  C7. A call of the throttled function at least \<open>delay\<close> after the last run invokes the
  callback at once and records the time. A call within \<open>delay\<close> of the last run sets a
  timer for the end of the window if none is pending, and does nothing otherwise; so at
  most one trailing timer is ever pending. With delay 300, ten calls 10 ms apart starting at
  \<open>t\<close> (a clock value, at least 300 ms after the epoch that \<open>lastCall\<close> starts from) give
  one invocation at \<open>t\<close> and one timer due at \<open>t + 300\<close>, which does not run at
  \<open>t + 299\<close> and whose run at \<open>t + 300\<close> is the second and last invocation.
\<close>

theorem throttle_policy:
  "(delay \<le> now e1 - lastCall s1 \<longrightarrow>
      limitedCallback (Throttle delay) e1 s1 = callback e1 (s1\<lparr>lastCall := now e1\<rparr>)
      \<and> lastCall (limitedCallback (Throttle delay) e1 s1) = now e1
      \<and> invocations (trace (limitedCallback (Throttle delay) e1 s1)) =
          invocations (trace s1) @ [now e1])
   \<and> (now e2 - lastCall s2 < delay \<and> timeoutId s2 = None \<longrightarrow>
      limitedCallback (Throttle delay) e2 s2 =
        s2\<lparr>timers := timers s2 @ [(nextTimer s2, lastCall s2 + delay, ThrottleTask)],
           nextTimer := Suc (nextTimer s2), timeoutId := Some (nextTimer s2)\<rparr>)
   \<and> (now e3 - lastCall s3 < delay \<and> timeoutId s3 \<noteq> None \<longrightarrow>
      limitedCallback (Throttle delay) e3 s3 = s3)
   \<and> (let s' = run_task ThrottleTask e4 s4
       in invocations (trace s') = invocations (trace s4) @ [now e4]
          \<and> lastCall s' = now e4 \<and> timeoutId s' = None)
   \<and> length (throttle_timers
        (run evs (connectedCallback e0 (new_element vbd uio thr dm dt anc io)))) \<le> 1
   \<and> (300 \<le> t \<longrightarrow>
      (let calls = map (\<lambda>k. Dispatch Window Scroll (example_env (t + 10 * int k) below_view c)) [0..<10];
           s0 = connectedCallback (example_env t below_view c)
                  (new_element False False thr ''throttle'' 300 [] io);
           s1 = run calls s0;
           s2 = run [TimerFire 1 (example_env (t + 300) below_view c)] s1
       in invocations (trace s1) = [t] \<and> timers s1 = [(1, t + 300, ThrottleTask)]
          \<and> run [TimerFire 1 (example_env (t + 299) below_view c)] s1 = s1
          \<and> invocations (trace s2) = [t, t + 300] \<and> timers s2 = []))"
proof (intro conjI impI)
  assume "delay \<le> now e1 - lastCall s1"
  then show "limitedCallback (Throttle delay) e1 s1 = callback e1 (s1\<lparr>lastCall := now e1\<rparr>)"
    by (simp add: throttle_def)
  then show "lastCall (limitedCallback (Throttle delay) e1 s1) = now e1"
    and "invocations (trace (limitedCallback (Throttle delay) e1 s1)) =
          invocations (trace s1) @ [now e1]"
    by (simp_all add: callback_frame)
next
  assume "now e2 - lastCall s2 < delay \<and> timeoutId s2 = None"
  then show "limitedCallback (Throttle delay) e2 s2 =
        s2\<lparr>timers := timers s2 @ [(nextTimer s2, lastCall s2 + delay, ThrottleTask)],
           nextTimer := Suc (nextTimer s2), timeoutId := Some (nextTimer s2)\<rparr>"
    by (simp add: throttle_def setTimeout_def max_def)
next
  assume "now e3 - lastCall s3 < delay \<and> timeoutId s3 \<noteq> None"
  then show "limitedCallback (Throttle delay) e3 s3 = s3"
    by (auto simp: throttle_def)
next
  show "(let s' = run_task ThrottleTask e4 s4
       in invocations (trace s') = invocations (trace s4) @ [now e4]
          \<and> lastCall s' = now e4 \<and> timeoutId s' = None)"
    by (simp add: callback_frame Let_def)
next
  show "length (throttle_timers
        (run evs (connectedCallback e0 (new_element vbd uio thr dm dt anc io)))) \<le> 1"
    by (rule one_trailing_reachable)
next
  assume "300 \<le> t"
  then show "(let calls = map (\<lambda>k. Dispatch Window Scroll (example_env (t + 10 * int k) below_view c)) [0..<10];
           s0 = connectedCallback (example_env t below_view c)
                  (new_element False False thr ''throttle'' 300 [] io);
           s1 = run calls s0;
           s2 = run [TimerFire 1 (example_env (t + 300) below_view c)] s1
       in invocations (trace s1) = [t] \<and> timers s1 = [(1, t + 300, ThrottleTask)]
          \<and> run [TimerFire 1 (example_env (t + 299) below_view c)] s1 = s1
          \<and> invocations (trace s2) = [t, t + 300] \<and> timers s2 = [])"
    by (simp add: model_defs upt_conv_Cons)
qed

theorem throttle_policy_witness:
  "(let s1 = connectedCallback (example_env 1000 below_view in_view)
               (new_element False False 0 ''throttle'' 300 [] True);
        e1 = example_env 1000 below_view in_view;
        s2 = limitedCallback (Throttle 300) e1 s1;
        e2 = example_env 1010 below_view in_view;
        s3 = limitedCallback (Throttle 300) e2 s2;
        e3 = example_env 1020 below_view in_view
    in 300 \<le> now e1 - lastCall s1
       \<and> (now e2 - lastCall s2 < 300 \<and> timeoutId s2 = None)
       \<and> (now e3 - lastCall s3 < 300 \<and> timeoutId s3 \<noteq> None)
       \<and> (300::int) \<le> 1000
       \<and> invocations (trace s2) = [1000]
       \<and> timers s3 = [(1, 1300, ThrottleTask)]
       \<and> limitedCallback (Throttle 300) e3 s3 = s3)"
  unfolding Let_def
  using throttle_policy
    [of 300 "example_env 1000 below_view in_view"
        "connectedCallback (example_env 1000 below_view in_view)
               (new_element False False 0 ''throttle'' 300 [] True)"
        "example_env 1010 below_view in_view"
        "limitedCallback (Throttle 300) (example_env 1000 below_view in_view)
           (connectedCallback (example_env 1000 below_view in_view)
               (new_element False False 0 ''throttle'' 300 [] True))"
        "example_env 1020 below_view in_view"
        "limitedCallback (Throttle 300) (example_env 1010 below_view in_view)
          (limitedCallback (Throttle 300) (example_env 1000 below_view in_view)
           (connectedCallback (example_env 1000 below_view in_view)
               (new_element False False 0 ''throttle'' 300 [] True)))"
        "example_env 1300 below_view in_view"
        "limitedCallback (Throttle 300) (example_env 1010 below_view in_view)
          (limitedCallback (Throttle 300) (example_env 1000 below_view in_view)
           (connectedCallback (example_env 1000 below_view in_view)
               (new_element False False 0 ''throttle'' 300 [] True)))"
        "[]" "example_env 1000 below_view in_view" False False 0 "''throttle''" 300 "[]" True
        1000 in_view]
  by (simp add: model_defs)

subsection \<open>C8: the scroll parent\<close>

text \<open>
  C8. For an ancestor chain with computed overflow values, \<open>getScrollParent\<close> returns the
  nearest ancestor one of whose overflow, overflowY and overflowX matches "auto" or
  "scroll", and the window if there is none, in particular for an element without a parent.
  An element in an \<open>overflow:auto\<close> div in a div without overflow resolves to the inner
  div.
\<close>

theorem getScrollParent_nearest_scrollable:
  "(valid_chain anc \<longrightarrow> getScrollParent anc = spec_resolve anc)
   \<and> getScrollParent [] = Window
   \<and> getScrollParent [(HTMLElement inner, style_of ''auto''),
                       (HTMLElement outer, style_of ''visible'')] = Elem (HTMLElement inner)"
  by (simp add: getScrollParent_resolve style_of_def regex_test_def)

theorem getScrollParent_nearest_scrollable_witness:
  "valid_chain [(HTMLElement 1, style_of ''visible''),
                (HTMLElement 2,
                 \<lparr>overflow = ''hidden auto'', overflowY = ''auto'', overflowX = ''hidden''\<rparr>),
                (HTMLElement 3, style_of ''scroll'')]
   \<and> getScrollParent [(HTMLElement 1, style_of ''visible''),
                (HTMLElement 2,
                 \<lparr>overflow = ''hidden auto'', overflowY = ''auto'', overflowX = ''hidden''\<rparr>),
                (HTMLElement 3, style_of ''scroll'')] = Elem (HTMLElement 2)"
  using getScrollParent_nearest_scrollable
    [of "[(HTMLElement 1, style_of ''visible''),
          (HTMLElement 2,
           \<lparr>overflow = ''hidden auto'', overflowY = ''auto'', overflowX = ''hidden''\<rparr>),
          (HTMLElement 3, style_of ''scroll'')]"]
  by (simp add: valid_chain_def valid_style_def overflow_keywords_def style_of_def
      spec_resolve_def spec_scrollable_def regex_test_def)

subsection \<open>C9: the check at activation\<close>

text \<open>
  C9, as the code has it. At activation of an element that is not visible by default, one
  check is made whatever the strategy, and the element is revealed at once, by one
  \<open>loadImage\<close>, exactly when that check succeeds. The scroll parent in force is the window
  under the observer strategy and the result of \<open>getScrollParent\<close> under polling. The check
  is against the window when the scroll parent is the window or an element that is not an
  \<open>HTMLElement\<close>, and against the bounding rectangle of the scroll parent when that is an
  \<open>HTMLElement\<close>: for DOM rectangles the element is revealed at activation if and only if
  it overlaps that container on both axes.
\<close>

theorem activation_check_against_scroll_parent:
  "(let s0 = new_element False uio thr dm dt anc io;
        s = connectedCallback e s0;
        sp = (if uio \<and> io then Window else getScrollParent anc);
        c = container_rect e (checked_container sp)
    in scrollParent s = sp
       \<and> imageVisible s = isCurrentlyVisible e (s0\<lparr>scrollParent := sp\<rparr>)
       \<and> loads s = (if imageVisible s then 1 else 0)
       \<and> (well_formed (boundingClientRect e) \<and> well_formed c \<longrightarrow>
            imageVisible s = spec_overlap (boundingClientRect e) c))"
proof -
  define s0 where "s0 = new_element False uio thr dm dt anc io"
  define sp where "sp = (if uio \<and> io then Window else getScrollParent anc)"
  have a: "scrollParent (connectedCallback e s0) = sp"
    and b: "imageVisible (connectedCallback e s0) = isCurrentlyVisible e (s0\<lparr>scrollParent := sp\<rparr>)"
    and c: "loads (connectedCallback e s0) = (if imageVisible (connectedCallback e s0) then 1 else 0)"
    by (auto simp: s0_def sp_def model_defs split: option.splits)
  have d: "isCurrentlyVisible e (s0\<lparr>scrollParent := sp\<rparr>) =
      spec_overlap (boundingClientRect e) (container_rect e (checked_container sp))"
    if "well_formed (boundingClientRect e)"
      and "well_formed (container_rect e (checked_container sp))"
    using that
    by (auto simp: isCurrentlyVisible_def spec_overlap_def spec_axis_overlap_def
          container_rect_def checked_container_def well_formed_def Let_def
          split: target.splits element.splits)
  show ?thesis
    unfolding Let_def s0_def [symmetric] sp_def [symmetric]
    using a b c d by simp
qed

theorem activation_check_against_scroll_parent_witness:
  "well_formed in_view
   \<and> well_formed (container_rect (example_env 1000 in_view (mk_rect 0 50 0 50))
        (checked_container (getScrollParent [(OtherElement 1, style_of ''auto'')])))
   \<and> getScrollParent [(OtherElement 1, style_of ''auto'')] = Elem (OtherElement 1)
   \<and> imageVisible
       (connectedCallback (example_env 1000 in_view (mk_rect 0 50 0 50))
          (new_element False False 0 ''debounce'' 0 [(OtherElement 1, style_of ''auto'')] True))"
  using activation_check_against_scroll_parent
    [of False 0 "''debounce''" 0 "[(OtherElement 1, style_of ''auto'')]" True
        "example_env 1000 in_view (mk_rect 0 50 0 50)"]
  by (simp add: model_defs well_formed_def container_rect_def spec_overlap_def
      spec_axis_overlap_def)

text \<open>
  The specification's wording does not hold under polling with a scrollable ancestor that
  is an \<open>HTMLElement\<close>: the element overlaps the window but not the ancestor's rectangle,
  and is not revealed at activation.
\<close>

theorem activation_check_window_counterexample:
  "\<not> imageVisible
       (connectedCallback (example_env 1000 in_view (mk_rect 0 50 0 50))
          (new_element False False 0 ''debounce'' 0 [(HTMLElement 1, style_of ''auto'')] True))
   \<and> spec_overlap in_view (container_rect (example_env 1000 in_view (mk_rect 0 50 0 50)) Window)"
  by (simp add: model_defs spec_overlap_def spec_axis_overlap_def container_rect_def)

subsection \<open>C10: polling does not read the threshold\<close>

text \<open>
  C10. The overlap check and \<open>handleScroll\<close> give the same result for any two
  thresholds. When no observer is created, two elements that differ only in their
  threshold are, after the same events, in states that differ only in the threshold. The
  threshold is read once, for the observer's root margin.
\<close>

theorem polling_independent_of_threshold:
  "isCurrentlyVisible e (s\<lparr>threshold := t1\<rparr>) = isCurrentlyVisible e (s\<lparr>threshold := t2\<rparr>)
   \<and> handleScroll e (s\<lparr>threshold := t1\<rparr>) = (handleScroll e (s\<lparr>threshold := t2\<rparr>))\<lparr>threshold := t1\<rparr>
   \<and> (vbd \<or> \<not> (uio \<and> io) \<longrightarrow>
        run evs (connectedCallback e0 (new_element vbd uio t1 dm dt anc io)) =
        (run evs (connectedCallback e0 (new_element vbd uio t2 dm dt anc io)))\<lparr>threshold := t1\<rparr>)
   \<and> observer (initialiseObserver s) = Some (threshold s)"
proof (intro conjI impI)
  show "isCurrentlyVisible e (s\<lparr>threshold := t1\<rparr>) = isCurrentlyVisible e (s\<lparr>threshold := t2\<rparr>)"
    by (simp add: isCurrentlyVisible_def)
  show "handleScroll e (s\<lparr>threshold := t1\<rparr>) = (handleScroll e (s\<lparr>threshold := t2\<rparr>))\<lparr>threshold := t1\<rparr>"
    by (simp add: threshold_handleScroll)
  show "observer (initialiseObserver s) = Some (threshold s)"
    by (simp add: initialiseObserver_def)
next
  assume "vbd \<or> \<not> (uio \<and> io)"
  from threshold_connected [OF this, where e = e0 and ?t1.0 = t1 and ?t2.0 = t2]
  show "run evs (connectedCallback e0 (new_element vbd uio t1 dm dt anc io)) =
        (run evs (connectedCallback e0 (new_element vbd uio t2 dm dt anc io)))\<lparr>threshold := t1\<rparr>"
    by (simp add: threshold_run)
qed

theorem polling_independent_of_threshold_witness:
  "(False \<or> \<not> (False \<and> True)) \<and>
   imageVisible (run [Dispatch Window Scroll (example_env 1010 (mk_rect 450 550 0 50) in_view)]
      (connectedCallback (example_env 1000 (mk_rect 450 550 0 50) in_view)
         (new_element False False 200 ''throttle'' 0 [] True))) =
   imageVisible (run [Dispatch Window Scroll (example_env 1010 (mk_rect 450 550 0 50) in_view)]
      (connectedCallback (example_env 1000 (mk_rect 450 550 0 50) in_view)
         (new_element False False 0 ''throttle'' 0 [] True)))"
  using polling_independent_of_threshold
    [where vbd = False and uio = False and io = True and ?t1.0 = 200 and ?t2.0 = 0
       and evs = "[Dispatch Window Scroll (example_env 1010 (mk_rect 450 550 0 50) in_view)]"
       and ?e0.0 = "example_env 1000 (mk_rect 450 550 0 50) in_view"
       and dm = "''throttle''" and dt = 0 and anc = "[]"]
  by (simp add: model_defs)

end
